theory Spec2Isabelle
  imports Complex_Main "HOL-Library.Word"
begin

section \<open>Strings and JSON values of the JavaScript program\<close>

text \<open>
  The program is \<^verbatim>\<open>src/find-key-3rd.js\<close>. A JavaScript string is a sequence of UTF-16
  code units; \<open>js\<close> turns an ASCII literal into one.
\<close>

type_synonym jschar = "16 word"
type_synonym jsstring = "jschar list"

definition js :: "string \<Rightarrow> jsstring" where
  "js s = map of_char s"

text \<open>
  What \<^verbatim>\<open>response.json()\<close> can return: a value parsed from JSON text. A number is an
  IEEE double that is not NaN (JSON has no NaN literal; an overflowing literal parses to
  an infinity; \<open>-0\<close> is falsy and \<open>===\<close>-equal to \<open>0\<close>, so it is identified with \<open>0\<close>).
  An object is the list of its own properties, read with \<open>map_of\<close>.
\<close>

datatype number = Finite real | PosInfinity | NegInfinity

datatype json =
    JNull
  | JBool bool
  | JNum number
  | JStr jsstring
  | JArr "json list"
  | JObj "(jsstring \<times> json) list"

text \<open>JavaScript's ToBoolean, as used by \<^verbatim>\<open>!x\<close>, \<^verbatim>\<open>x && y\<close> and \<^verbatim>\<open>if (x)\<close>.\<close>

fun truthy :: "json \<Rightarrow> bool" where
  "truthy JNull = False"
| "truthy (JBool b) = b"
| "truthy (JNum n) = (n \<noteq> Finite 0)"
| "truthy (JStr s) = (s \<noteq> [])"
| "truthy (JArr xs) = True"
| "truthy (JObj kvs) = True"

text \<open>
  The property read \<^verbatim>\<open>r.key\<close> on a truthy parsed value: \<open>None\<close> is \<^verbatim>\<open>undefined\<close>.
  Only an object can own a property named \<^verbatim>\<open>key\<close>; booleans, numbers, strings and arrays
  have none, neither own nor inherited.
\<close>

fun key_of :: "json \<Rightarrow> json option" where
  "key_of (JObj kvs) = map_of kvs (js ''key'')"
| "key_of r = None"

text \<open>
  \<^verbatim>\<open>a === b\<close> between two values that come from two separate calls of
  \<^verbatim>\<open>response.json()\<close>: primitives compare by type and value, while two arrays or two
  objects are never the same reference.
\<close>

fun strict_eq :: "json \<Rightarrow> json \<Rightarrow> bool" where
  "strict_eq JNull JNull = True"
| "strict_eq (JBool a) (JBool b) = (a = b)"
| "strict_eq (JNum a) (JNum b) = (a = b)"
| "strict_eq (JStr a) (JStr b) = (a = b)"
| "strict_eq a b = False"

text \<open>
  Line 73: \<^verbatim>\<open>response1.key && response2.key && response1.key === response2.key\<close>,
  as the condition of an \<^verbatim>\<open>if\<close>. The operands are evaluated left to right and the
  first falsy one decides.
\<close>

definition key_match :: "json \<Rightarrow> json \<Rightarrow> bool" where
  "key_match response1 response2 =
     (case key_of response1 of
        None \<Rightarrow> False
      | Some k1 \<Rightarrow>
          truthy k1 \<and>
          (case key_of response2 of
             None \<Rightarrow> False
           | Some k2 \<Rightarrow> truthy k2 \<and> strict_eq k1 k2))"

text \<open>
  The classification that lines 54, 64 and 73 of \<^verbatim>\<open>main\<close> make of the two values
  returned by \<^verbatim>\<open>submitChecksum\<close>, in the order of the three tests.
\<close>

datatype match_decision = TransientFailure | NoMatch | Match

definition decide :: "json \<Rightarrow> json \<Rightarrow> match_decision" where
  "decide response1 response2 =
     (if \<not> truthy response1 then TransientFailure
      else if \<not> truthy response2 then TransientFailure
      else if key_match response1 response2 then Match
      else NoMatch)"

section \<open>The checksum source: \<^verbatim>\<open>parseChecksumFile\<close>\<close>

text \<open>\<^verbatim>\<open>line.split(",")\<close>: the pieces between the separators; never an empty array.\<close>

fun split_on :: "'a \<Rightarrow> 'a list \<Rightarrow> 'a list list" where
  "split_on sep [] = [[]]"
| "split_on sep (c # cs) =
     (if c = sep then [] # split_on sep cs
      else (case split_on sep cs of
              [] \<Rightarrow> [[c]]
            | p # ps \<Rightarrow> (c # p) # ps))"

definition comma :: jschar where
  "comma = 0x2C"

text \<open>
  \<^verbatim>\<open>String.prototype.trim\<close> removes the white space and line terminator code units
  of ECMAScript from both ends.
\<close>

definition is_white :: "jschar \<Rightarrow> bool" where
  "is_white c =
     (c \<in> set [0x09, 0x0A, 0x0B, 0x0C, 0x0D, 0x20, 0xA0, 0x1680, 0x2028, 0x2029,
               0x202F, 0x205F, 0x3000, 0xFEFF]
      \<or> (0x2000 \<le> c \<and> c \<le> 0x200A))"

definition trim :: "jsstring \<Rightarrow> jsstring" where
  "trim s = rev (dropWhile is_white (rev (dropWhile is_white s)))"

text \<open>
  The \<^verbatim>\<open>line\<close> handler of lines 157 to 163: \<open>checksums\<close> is the array built so far.
\<close>

definition on_line :: "jsstring list \<Rightarrow> jsstring \<Rightarrow> jsstring list" where
  "on_line checksums line =
     (let parts = split_on comma line
      in if length parts = 2 \<and> parts ! 1 \<noteq> []
         then checksums @ [trim (parts ! 1)]
         else checksums)"

text \<open>
  The file system as the program sees it: a path holds nothing, or a file whose read
  fails, or a file that readline delivers as a list of lines.
\<close>

datatype error = FileNotFound jsstring | ReadError

type_synonym fsys = "jsstring \<Rightarrow> (error + jsstring list) option"

definition parseChecksumFile :: "fsys \<Rightarrow> jsstring \<Rightarrow> error + jsstring list" where
  "parseChecksumFile fs filePath =
     (case fs filePath of
        None \<Rightarrow> Inl (FileNotFound filePath)
      | Some (Inl e) \<Rightarrow> Inl e
      | Some (Inr ls) \<Rightarrow> Inr (foldl on_line [] ls))"

section \<open>The remote lookup client: \<^verbatim>\<open>submitChecksum\<close>\<close>

text \<open>
  What one \<^verbatim>\<open>fetch\<close> of the fixed URL does: it throws (a transport error), or it gives
  a response with a status code whose body parses as JSON or does not (then
  \<^verbatim>\<open>response.json()\<close> throws). A request that never settles is outside the model.
\<close>

datatype fetch_result = Threw | Response nat "json option"

text \<open>
  What the program prints. Timer output, the rule lines and the bare newlines are left
  out; the percentage of a progress line is a function of its two numbers.
\<close>

datatype message =
    ReadingFrom jsstring
  | FailedLoggedTo jsstring
  | NoChecksumsFound
  | FoundChecksums nat
  | StartingSearch
  | Progress nat nat
  | MatchFoundReport jsstring json
  | SearchComplete
  | NonOkStatus nat jsstring
  | NetworkError jsstring
  | MainError error

definition ok :: "nat \<Rightarrow> bool" where
  "ok status = (200 \<le> status \<and> status \<le> 299)"

text \<open>
  Lines 112 to 138. The result is the returned value, \<open>JNull\<close> being JavaScript's
  \<^verbatim>\<open>null\<close>, with the diagnostics written by \<^verbatim>\<open>console.error\<close>.
\<close>

definition submitChecksum :: "fetch_result \<Rightarrow> jsstring \<Rightarrow> json \<times> message list" where
  "submitChecksum r checksum =
     (case r of
        Threw \<Rightarrow> (JNull, [NetworkError checksum])
      | Response status body \<Rightarrow>
          if \<not> ok status then (JNull, [NonOkStatus status checksum])
          else (case body of
                  None \<Rightarrow> (JNull, [NetworkError checksum])
                | Some v \<Rightarrow> (v, [])))"

text \<open>
  The remote service: what the request number \<open>n\<close> of the run (counted from 0) gets
  when it carries the given checksum. Two requests with the same checksum may be
  answered differently.
\<close>

type_synonym server = "nat \<Rightarrow> jsstring \<Rightarrow> fetch_result"

definition response :: "server \<Rightarrow> nat \<Rightarrow> jsstring \<Rightarrow> json" where
  "response srv n checksum = fst (submitChecksum (srv n checksum) checksum)"

text \<open>
  The failed attempts among consecutive requests: \<open>cs\<close> are the checksums sent, in
  order, the first of them as request number \<open>n\<close>. An attempt fails for the loop when
  the value returned is falsy (lines 54 and 64), as \<^verbatim>\<open>null\<close> is.
\<close>

fun failed_attempts :: "server \<Rightarrow> nat \<Rightarrow> jsstring list \<Rightarrow> jsstring list" where
  "failed_attempts srv n [] = []"
| "failed_attempts srv n (c # cs) =
     (if truthy (response srv n c) then [] else [c]) @ failed_attempts srv (Suc n) cs"

section \<open>The verification loop of \<^verbatim>\<open>main\<close>\<close>

text \<open>
  The state that \<^verbatim>\<open>main\<close> changes: the checksums passed to \<^verbatim>\<open>submitChecksum\<close> so
  far, the lines written to \<^verbatim>\<open>failedStream\<close>, the number of calls of
  \<^verbatim>\<open>failedStream.end()\<close>, the counter \<^verbatim>\<open>processedCount\<close> and the printed messages.
\<close>

record state =
  calls :: "jsstring list"
  sink :: "jsstring list"
  ended :: nat
  processedCount :: nat
  console :: "message list"

datatype outcome = MatchFound jsstring json | Exhausted

text \<open>\<^verbatim>\<open>processedCount++; updateProgress(processedCount, totalChecksums);\<close>\<close>

definition advance :: "nat \<Rightarrow> state \<Rightarrow> state" where
  "advance totalChecksums s =
     s\<lparr>processedCount := Suc (processedCount s),
       console := console s @ [Progress (Suc (processedCount s)) totalChecksums]\<rparr>"

text \<open>The body of the two failure branches, lines 56 to 59 and 66 to 69.\<close>

definition failed :: "nat \<Rightarrow> jsstring \<Rightarrow> state \<Rightarrow> state" where
  "failed totalChecksums checksum s = advance totalChecksums (s\<lparr>sink := sink s @ [checksum]\<rparr>)"

text \<open>\<^verbatim>\<open>await submitChecksum(checksum)\<close> in state \<open>s\<close>.\<close>

definition submit :: "server \<Rightarrow> jsstring \<Rightarrow> state \<Rightarrow> json \<times> state" where
  "submit srv checksum s =
     (let (v, diagnostics) = submitChecksum (srv (length (calls s)) checksum) checksum
      in (v, s\<lparr>calls := calls s @ [checksum], console := console s @ diagnostics\<rparr>))"

text \<open>
  One pass through the loop body, lines 50 to 88. \<open>Some\<close> is the match branch, which
  ends the process with \<^verbatim>\<open>process.exit(0)\<close>; \<open>None\<close> goes on to the next checksum.
  The flag \<^verbatim>\<open>matchFound\<close> is set only just before that exit, so the test of line 50
  never succeeds and the test of line 91 never fails.
\<close>

definition iteration :: "server \<Rightarrow> nat \<Rightarrow> jsstring \<Rightarrow> state \<Rightarrow> outcome option \<times> state" where
  "iteration srv totalChecksums checksum s =
     (let (response1, s1) = submit srv checksum s
      in if \<not> truthy response1 then (None, failed totalChecksums checksum s1)
         else
           let (response2, s2) = submit srv checksum s1
           in if \<not> truthy response2 then (None, failed totalChecksums checksum s2)
              else if key_match response1 response2
                then (Some (MatchFound checksum response1),
                      s2\<lparr>console := console s2 @ [MatchFoundReport checksum response1],
                         ended := Suc (ended s2)\<rparr>)
                else (None, advance totalChecksums s2))"

fun loop :: "server \<Rightarrow> nat \<Rightarrow> jsstring list \<Rightarrow> state \<Rightarrow> outcome option \<times> state" where
  "loop srv totalChecksums [] s = (None, s)"
| "loop srv totalChecksums (checksum # rest) s =
     (case iteration srv totalChecksums checksum s of
        (Some out, s') \<Rightarrow> (Some out, s')
      | (None, s') \<Rightarrow> loop srv totalChecksums rest s')"

text \<open>
  Lines 44 to 97: the counter starts at 0, the loop runs, and when it runs out of
  checksums the exhaustion report is printed and the stream is ended.
\<close>

definition search :: "server \<Rightarrow> nat \<Rightarrow> jsstring list \<Rightarrow> state \<Rightarrow> outcome \<times> state" where
  "search srv totalChecksums checksums s =
     (case loop srv totalChecksums checksums (s\<lparr>processedCount := 0\<rparr>) of
        (Some out, s') \<Rightarrow> (out, s')
      | (None, s') \<Rightarrow>
          (Exhausted, s'\<lparr>console := console s' @ [SearchComplete], ended := Suc (ended s')\<rparr>))"

section \<open>The whole run\<close>

text \<open>
  The disk as the program meets it: what each path holds, and whether a path can be
  opened for appending, that is, its directory exists and may be searched, and either the
  path holds a file that the process may write to, or it holds nothing and the directory
  may be written to.
\<close>

record disk =
  files :: fsys
  appendable :: "jsstring \<Rightarrow> bool"

text \<open>
  What becomes of a write stream. \<open>Opened\<close> carries the files as they are once the
  stream is open. \<open>OpenFailed\<close>: the open fails, no file is created or changed, and the
  stream emits an \<^verbatim>\<open>error\<close> event; the program registers no handler for it, so the
  event ends the process as an uncaught exception.
\<close>

datatype log_open = Opened fsys | OpenFailed

text \<open>
  \<^verbatim>\<open>fs.createWriteStream(p, {flags: "a"})\<close> opens \<open>p\<close> for appending: where that can be
  done, a missing file is created empty and an existing one is left as it is.
\<close>

definition createWriteStream :: "jsstring \<Rightarrow> disk \<Rightarrow> log_open" where
  "createWriteStream p d =
     (if appendable d p
      then Opened (case files d p of None \<Rightarrow> (files d)(p \<mapsto> Inr []) | Some f \<Rightarrow> files d)
      else OpenFailed)"

text \<open>
  How a run of \<^verbatim>\<open>main\<close> ends: by \<^verbatim>\<open>process.exit(0)\<close> with an outcome, by the return
  of line 38, by a rejection, or killed by the unhandled error of the write stream.
\<close>

datatype ending = Exit outcome | NoChecksums | Rejected error | Killed

definition start :: state where
  "start = \<lparr>calls = [], sink = [], ended = 0, processedCount = 0, console = []\<rparr>"

text \<open>
  Lines 19 to 98. \<open>failedPathOf\<close> stands for
  \<^verbatim>\<open>path.join(path.dirname(reportPath), "failed.txt")\<close> of Node's path module, and
  \<open>reportPath\<close> is the operator's answer to the prompt.

  The stream's open is asynchronous, and lines 24 to 33 run without a pause up to the
  synchronous \<^verbatim>\<open>fs.existsSync\<close> of line 147, which therefore looks at the files as they
  were. So a missing report is rejected, and the rejection printed, whatever becomes of
  the stream. When the report exists and the open fails, the \<^verbatim>\<open>error\<close> event comes while
  the report is still being read, the open having been requested first and being a single
  file operation where the reading takes several: the process is killed with nothing but
  the first two lines printed.
\<close>

definition main ::
  "(jsstring \<Rightarrow> jsstring) \<Rightarrow> server \<Rightarrow> jsstring \<Rightarrow> disk \<Rightarrow> ending \<times> state \<times> log_open" where
  "main failedPathOf srv reportPath d =
     (let failedLogPath = failedPathOf reportPath;
          failedStream = createWriteStream failedLogPath d;
          s0 = start\<lparr>console := [ReadingFrom reportPath, FailedLoggedTo failedLogPath]\<rparr>
      in if failedStream = OpenFailed \<and> files d reportPath \<noteq> None
         then (Killed, s0, failedStream)
         else
           case parseChecksumFile (files d) reportPath of
             Inl err \<Rightarrow> (Rejected err, s0, failedStream)
           | Inr checksums \<Rightarrow>
               let totalChecksums = length checksums
               in if totalChecksums = 0
                  then (NoChecksums, s0\<lparr>console := console s0 @ [NoChecksumsFound]\<rparr>,
                        failedStream)
                  else
                    let s1 = s0\<lparr>console := console s0 @
                                  [FoundChecksums totalChecksums, StartingSearch]\<rparr>;
                        (out, s2) = search srv totalChecksums checksums s1
                    in (Exit out, s2, failedStream))"

text \<open>Lines 186 to 188: \<^verbatim>\<open>main().catch(...)\<close> prints the error of a rejected run.\<close>

definition program ::
  "(jsstring \<Rightarrow> jsstring) \<Rightarrow> server \<Rightarrow> jsstring \<Rightarrow> disk \<Rightarrow> ending \<times> state \<times> log_open" where
  "program failedPathOf srv reportPath d =
     (case main failedPathOf srv reportPath d of
        (Rejected err, s, a) \<Rightarrow> (Rejected err, s\<lparr>console := console s @ [MainError err]\<rparr>, a)
      | r \<Rightarrow> r)"

section \<open>Example inputs\<close>

text \<open>A service that is unreachable: every \<^verbatim>\<open>fetch\<close> throws.\<close>

definition unreachable :: server where
  "unreachable n checksum = Threw"

text \<open>
  A service that answers every request with status 200: \<^verbatim>\<open>{"key": "X"}\<close> for the
  checksum \<^verbatim>\<open>BBB\<close> and \<^verbatim>\<open>{}\<close> for any other.
\<close>

definition stub :: server where
  "stub n checksum =
     Response 200 (Some (if checksum = js ''BBB'' then JObj [(js ''key'', JStr (js ''X''))]
                         else JObj []))"

text \<open>
  \<^verbatim>\<open>path.join(path.dirname(p), "failed.txt")\<close> for a report path \<open>p\<close> in the current
  directory, such as \<^verbatim>\<open>./checksum_report.txt\<close>.
\<close>

definition in_cwd :: "jsstring \<Rightarrow> jsstring" where
  "in_cwd reportPath = js ''failed.txt''"


text \<open>No files at all, and the file \<^verbatim>\<open>./checksum_report.txt\<close> only.\<close>

definition no_files :: fsys where
  "no_files p = None"

definition report_only :: "jsstring list \<Rightarrow> fsys" where
  "report_only ls p = (if p = js ''./checksum_report.txt'' then Some (Inr ls) else None)"

text \<open>
  These files in a directory where any file can be opened for appending, and where none
  can: the directory is missing, or it may not be written to.
\<close>

definition writable :: "fsys \<Rightarrow> disk" where
  "writable fs = \<lparr>files = fs, appendable = (\<lambda>p. True)\<rparr>"

definition read_only :: "fsys \<Rightarrow> disk" where
  "read_only fs = \<lparr>files = fs, appendable = (\<lambda>p. False)\<rparr>"

section \<open>The match rule\<close>

lemma truthy_strict_eq:
  "truthy k1 \<and> truthy k2 \<and> strict_eq k1 k2 \<longleftrightarrow>
     k1 = k2 \<and>
     ((\<exists>s. k1 = JStr s \<and> s \<noteq> []) \<or> (\<exists>n. k1 = JNum n \<and> n \<noteq> Finite 0) \<or> k1 = JBool True)"
  by (cases k1; cases k2) auto

lemma key_match_iff:
  "key_match r1 r2 \<longleftrightarrow>
     (\<exists>k. key_of r1 = Some k \<and> key_of r2 = Some k \<and>
          ((\<exists>s. k = JStr s \<and> s \<noteq> []) \<or> (\<exists>n. k = JNum n \<and> n \<noteq> Finite 0) \<or> k = JBool True))"
proof (cases "key_of r1")
  case None
  then show ?thesis by (simp add: key_match_def)
next
  case k1: (Some k1)
  show ?thesis
  proof (cases "key_of r2")
    case None
    with k1 show ?thesis by (simp add: key_match_def)
  next
    case (Some k2)
    with k1 truthy_strict_eq [of k1 k2] show ?thesis
      by (auto simp: key_match_def)
  qed
qed

text \<open>
  Claim C1 does not hold as stated: a \<^verbatim>\<open>key\<close> that is not a string can produce a match.
  Two responses \<^verbatim>\<open>{"key": 5}\<close> pass all three operands of line 73, since \<open>5\<close> is truthy
  and \<^verbatim>\<open>5 === 5\<close>.
\<close>

theorem decide_number_key_counterexample:
  "decide (JObj [(js ''key'', JNum (Finite 5))]) (JObj [(js ''key'', JNum (Finite 5))]) = Match"
  by (simp add: decide_def key_match_def)

text \<open>
  Claim C1, amended: the decision is Match if and only if both submissions returned a
  truthy value and both values carry the same \<^verbatim>\<open>key\<close>, which is a non-empty string, a
  non-zero number or \<^verbatim>\<open>true\<close>. Every other pair of truthy values is a NoMatch: a missing
  key, or a key that is \<^verbatim>\<open>null\<close>, \<^verbatim>\<open>false\<close>, \<open>0\<close>, the empty string, an array or an
  object. The decision is a transient failure exactly when one of the two values is
  falsy. Reading \<^verbatim>\<open>key\<close> never raises, the value being truthy by then.
\<close>

theorem decide_match_iff:
  "(decide r1 r2 = Match \<longleftrightarrow>
      truthy r1 \<and> truthy r2 \<and>
      (\<exists>k. key_of r1 = Some k \<and> key_of r2 = Some k \<and>
           ((\<exists>s. k = JStr s \<and> s \<noteq> []) \<or> (\<exists>n. k = JNum n \<and> n \<noteq> Finite 0)
            \<or> k = JBool True)))
   \<and> (decide r1 r2 = TransientFailure \<longleftrightarrow> \<not> truthy r1 \<or> \<not> truthy r2)"
  using key_match_iff [of r1 r2] by (auto simp: decide_def)

theorem decide_match_iff_witness:
  "decide (JObj [(js ''key'', JStr (js ''X''))])
          (JObj [(js ''id'', JNum (Finite 1)), (js ''key'', JStr (js ''X''))]) = Match
   \<and> decide (JObj [(js ''key'', JStr (js ''X''))]) (JObj [(js ''key'', JStr (js ''x''))]) \<noteq> Match"
  using decide_match_iff [of "JObj [(js ''key'', JStr (js ''X''))]"
          "JObj [(js ''id'', JNum (Finite 1)), (js ''key'', JStr (js ''X''))]"]
    decide_match_iff [of "JObj [(js ''key'', JStr (js ''X''))]"
          "JObj [(js ''key'', JStr (js ''x''))]"]
  by (simp add: js_def)

section \<open>The parsing rule\<close>

lemma split_on_nonempty: "split_on sep xs \<noteq> []"
  by (induction xs) (auto split: list.splits)

lemma length_split_on: "length (split_on sep xs) = Suc (count_list xs sep)"
  by (induction xs) (auto split: list.splits simp: split_on_nonempty)

lemma split_on_no_sep: "sep \<notin> set xs \<Longrightarrow> split_on sep xs = [xs]"
  by (induction xs) auto

lemma split_on_append:
  "sep \<notin> set a \<Longrightarrow> split_on sep (a @ sep # b) = a # split_on sep b"
  by (induction a) (auto split: list.splits)

lemma split_on_two:
  "sep \<notin> set a \<Longrightarrow> sep \<notin> set b \<Longrightarrow> split_on sep (a @ sep # b) = [a, b]"
  by (simp add: split_on_append split_on_no_sep)

lemma on_line_append: "on_line checksums line = checksums @ on_line [] line"
  by (simp add: on_line_def Let_def)

lemma foldl_on_line: "foldl on_line acc ls = acc @ concat (map (on_line []) ls)"
proof (induction ls arbitrary: acc)
  case Nil
  show ?case by simp
next
  case (Cons l ls)
  have "foldl on_line acc (l # ls) = foldl on_line (on_line acc l) ls" by simp
  also have "\<dots> = on_line acc l @ concat (map (on_line []) ls)" by (rule Cons.IH)
  also have "\<dots> = acc @ concat (map (on_line []) (l # ls))"
    using on_line_append [of acc l] by simp
  finally show ?case .
qed

lemma trim_nonempty_imp: "trim b \<noteq> [] \<Longrightarrow> b \<noteq> []"
  by (auto simp: trim_def)

lemma on_line_token:
  assumes "comma \<notin> set a" "comma \<notin> set b" "b \<noteq> []"
  shows "on_line checksums (a @ comma # b) = checksums @ [trim b]"
  using assms by (simp add: on_line_def split_on_two)

lemma on_line_other_count:
  assumes "count_list line comma \<noteq> 1"
  shows "on_line checksums line = checksums"
  using assms by (simp add: on_line_def length_split_on)

lemma on_line_empty_second:
  assumes "comma \<notin> set a"
  shows "on_line checksums (a @ [comma]) = checksums"
  using assms split_on_two [of comma a "[]"] by (simp add: on_line_def)

text \<open>
  Claim C4 does not hold as stated: the first field is not required to be non-empty.
  The line \<^verbatim>\<open>,AAA\<close> splits into an empty part and \<^verbatim>\<open>AAA\<close>, and yields the token.
\<close>

theorem on_line_empty_first_field_counterexample:
  "on_line [] (js '',AAA'') = [js ''AAA'']"
  by (simp add: on_line_def js_def comma_def trim_def is_white_def)

text \<open>
  Claim C4, amended: a line that holds exactly one comma, followed by a part that is not
  empty after trimming, yields that part trimmed as its token, whatever stands before
  the comma; a line with no comma or with two or more commas, and a line with nothing
  after its only comma, yield no token; the tokens of a file are those of its lines, in
  file order.
\<close>

theorem parse_rule:
  "(comma \<notin> set a \<and> comma \<notin> set b \<and> trim b \<noteq> [] \<longrightarrow>
      on_line checksums (a @ comma # b) = checksums @ [trim b])
   \<and> (count_list line comma \<noteq> 1 \<longrightarrow> on_line checksums line = checksums)
   \<and> (comma \<notin> set a \<longrightarrow> on_line checksums (a @ [comma]) = checksums)
   \<and> (fs filePath = Some (Inr ls) \<longrightarrow>
        parseChecksumFile fs filePath = Inr (concat (map (on_line []) ls)))"
  using on_line_token [of a b checksums] on_line_other_count [of line checksums]
    on_line_empty_second [of a checksums] foldl_on_line [of "[]" ls] trim_nonempty_imp [of b]
  by (auto simp: parseChecksumFile_def)

theorem parse_rule_witness:
  "on_line [js ''AAA''] (js ''b.txt, BBB '') = [js ''AAA'', js ''BBB'']
   \<and> on_line [js ''AAA''] (js ''b.txt,BBB,x'') = [js ''AAA'']
   \<and> on_line [js ''AAA''] (js ''b.txt'') = [js ''AAA'']
   \<and> on_line [js ''AAA''] (js ''b.txt,'') = [js ''AAA'']
   \<and> parseChecksumFile (report_only [js ''a.txt,AAA'', js ''no comma'', js ''b.txt, BBB ''])
         (js ''./checksum_report.txt'')
       = Inr [js ''AAA'', js ''BBB'']"
proof -
  have t: "trim (js '' BBB '') = js ''BBB''"
    by (simp add: trim_def is_white_def js_def)
  have 1: "on_line [js ''AAA''] (js ''b.txt, BBB '') = [js ''AAA'', js ''BBB'']"
    using parse_rule [of "js ''b.txt''" "js '' BBB ''" "[js ''AAA'']"] t
    by (simp add: js_def comma_def)
  have 2: "on_line [js ''AAA''] (js ''b.txt,BBB,x'') = [js ''AAA'']"
    using parse_rule [of _ _ "[js ''AAA'']" "js ''b.txt,BBB,x''"]
    by (simp add: js_def comma_def)
  have 3: "on_line [js ''AAA''] (js ''b.txt'') = [js ''AAA'']"
    using parse_rule [of _ _ "[js ''AAA'']" "js ''b.txt''"]
    by (simp add: js_def comma_def)
  have 4: "on_line [js ''AAA''] (js ''b.txt,'') = [js ''AAA'']"
    using parse_rule [of "js ''b.txt''" _ "[js ''AAA'']"]
    by (simp add: js_def comma_def)
  have 5: "parseChecksumFile (report_only [js ''a.txt,AAA'', js ''no comma'', js ''b.txt, BBB ''])
         (js ''./checksum_report.txt'')
       = Inr [js ''AAA'', js ''BBB'']"
    using parse_rule [of _ _ _ _ "report_only [js ''a.txt,AAA'', js ''no comma'', js ''b.txt, BBB '']"
        "js ''./checksum_report.txt''" "[js ''a.txt,AAA'', js ''no comma'', js ''b.txt, BBB '']"]
    by (simp add: report_only_def on_line_def js_def comma_def trim_def is_white_def)
  from 1 2 3 4 5 show ?thesis by simp
qed

section \<open>One pass through the loop body\<close>

lemma submit_eq:
  "submit srv c s =
     (response srv (length (calls s)) c,
      s\<lparr>calls := calls s @ [c],
        console := console s @ snd (submitChecksum (srv (length (calls s)) c) c)\<rparr>)"
  by (simp add: submit_def response_def split: prod.splits)

lemma iteration_first_fails:
  assumes "\<not> truthy (response srv (length (calls s)) c)"
  shows "iteration srv tot c s = (None, failed tot c (snd (submit srv c s)))"
  using assms by (simp add: iteration_def submit_eq)

lemma iteration_second_fails:
  assumes "truthy (response srv (length (calls s)) c)"
    and "\<not> truthy (response srv (Suc (length (calls s))) c)"
  shows "iteration srv tot c s = (None, failed tot c (snd (submit srv c (snd (submit srv c s)))))"
  using assms by (simp add: iteration_def submit_eq)

lemma iteration_match:
  assumes "truthy (response srv (length (calls s)) c)"
    and "truthy (response srv (Suc (length (calls s))) c)"
    and "key_match (response srv (length (calls s)) c) (response srv (Suc (length (calls s))) c)"
  shows "iteration srv tot c s =
           (Some (MatchFound c (response srv (length (calls s)) c)),
            (snd (submit srv c (snd (submit srv c s))))
              \<lparr>console := console (snd (submit srv c (snd (submit srv c s)))) @
                           [MatchFoundReport c (response srv (length (calls s)) c)],
               ended := Suc (ended s)\<rparr>)"
  using assms by (simp add: iteration_def submit_eq)

lemma iteration_no_match:
  assumes "truthy (response srv (length (calls s)) c)"
    and "truthy (response srv (Suc (length (calls s))) c)"
    and "\<not> key_match (response srv (length (calls s)) c) (response srv (Suc (length (calls s))) c)"
  shows "iteration srv tot c s = (None, advance tot (snd (submit srv c (snd (submit srv c s)))))"
  using assms by (simp add: iteration_def submit_eq)

lemma submit_fields [simp]:
  "calls (snd (submit srv c s)) = calls s @ [c]"
  "sink (snd (submit srv c s)) = sink s"
  "ended (snd (submit srv c s)) = ended s"
  "processedCount (snd (submit srv c s)) = processedCount s"
  by (simp_all add: submit_eq)

lemma advance_fields [simp]:
  "calls (advance tot s) = calls s"
  "sink (advance tot s) = sink s"
  "ended (advance tot s) = ended s"
  "processedCount (advance tot s) = Suc (processedCount s)"
  by (simp_all add: advance_def)

lemma failed_fields [simp]:
  "calls (failed tot c s) = calls s"
  "sink (failed tot c s) = sink s @ [c]"
  "ended (failed tot c s) = ended s"
  "processedCount (failed tot c s) = Suc (processedCount s)"
  by (simp_all add: failed_def)

text \<open>The four ways through the loop body.\<close>

lemma iteration_cases:
  obtains
    (first_fails) "\<not> truthy (response srv (length (calls s)) c)"
      "iteration srv tot c s = (None, failed tot c (snd (submit srv c s)))"
  | (second_fails) "truthy (response srv (length (calls s)) c)"
      "\<not> truthy (response srv (Suc (length (calls s))) c)"
      "iteration srv tot c s = (None, failed tot c (snd (submit srv c (snd (submit srv c s)))))"
  | (match) "decide (response srv (length (calls s)) c) (response srv (Suc (length (calls s))) c) = Match"
      "iteration srv tot c s =
           (Some (MatchFound c (response srv (length (calls s)) c)),
            (snd (submit srv c (snd (submit srv c s))))
              \<lparr>console := console (snd (submit srv c (snd (submit srv c s)))) @
                           [MatchFoundReport c (response srv (length (calls s)) c)],
               ended := Suc (ended s)\<rparr>)"
  | (no_match) "decide (response srv (length (calls s)) c) (response srv (Suc (length (calls s))) c) = NoMatch"
      "iteration srv tot c s = (None, advance tot (snd (submit srv c (snd (submit srv c s)))))"
proof (cases "truthy (response srv (length (calls s)) c)")
  case False
  then show ?thesis using first_fails iteration_first_fails by blast
next
  case r1: True
  show ?thesis
  proof (cases "truthy (response srv (Suc (length (calls s))) c)")
    case False
    with r1 show ?thesis using second_fails iteration_second_fails by blast
  next
    case r2: True
    show ?thesis
    proof (cases "key_match (response srv (length (calls s)) c) (response srv (Suc (length (calls s))) c)")
      case True
      with r1 r2 have "decide (response srv (length (calls s)) c) (response srv (Suc (length (calls s))) c) = Match"
        by (simp add: decide_def)
      with r1 r2 True show ?thesis using match iteration_match by blast
    next
      case False
      with r1 r2 have "decide (response srv (length (calls s)) c) (response srv (Suc (length (calls s))) c) = NoMatch"
        by (simp add: decide_def)
      with r1 r2 False show ?thesis using no_match iteration_no_match by blast
    qed
  qed
qed

section \<open>The loop\<close>

lemma decide_Match: "decide r1 r2 = Match \<longleftrightarrow> truthy r1 \<and> truthy r2 \<and> key_match r1 r2"
  by (simp add: decide_def)

lemma loop_append:
  "loop srv tot (xs @ ys) s =
     (case loop srv tot xs s of (Some out, s') \<Rightarrow> (Some out, s') | (None, s') \<Rightarrow> loop srv tot ys s')"
  by (induction xs arbitrary: s) (auto split: prod.splits option.splits)

lemma failed_attempts_append:
  "failed_attempts srv n (xs @ ys) =
     failed_attempts srv n xs @ failed_attempts srv (n + length xs) ys"
  by (induction xs arbitrary: n) auto

lemma set_failed_attempts:
  "x \<in> set (failed_attempts srv n cs) \<Longrightarrow> x \<in> set cs \<and> (\<exists>m. \<not> truthy (response srv m x))"
  by (induction cs arbitrary: n) (auto split: if_splits)

text \<open>What one pass adds to the requests and to the failure log.\<close>

lemma iteration_trace:
  assumes "iteration srv tot c s = (r, s')"
  shows "\<exists>new. (new = [c] \<or> new = [c, c]) \<and> calls s' = calls s @ new
           \<and> sink s' = sink s @ failed_attempts srv (length (calls s)) new
           \<and> length (failed_attempts srv (length (calls s)) new) \<le> 1
           \<and> (failed_attempts srv (length (calls s)) new \<noteq> [] \<longrightarrow>
                r = None \<and> processedCount s' = Suc (processedCount s))"
proof (cases rule: iteration_cases [of srv s c tot])
  case first_fails
  with assms show ?thesis by (intro exI [of _ "[c]"]) auto
next
  case second_fails
  with assms show ?thesis by (intro exI [of _ "[c, c]"]) auto
next
  case match
  with assms show ?thesis by (intro exI [of _ "[c, c]"]) (auto simp: decide_Match)
next
  case no_match
  then have "truthy (response srv (length (calls s)) c)" "truthy (response srv (Suc (length (calls s))) c)"
    by (auto simp: decide_def split: if_splits)
  with no_match assms show ?thesis by (intro exI [of _ "[c, c]"]) auto
qed

lemma loop_trace:
  assumes "loop srv tot cs s = (r, s')"
  shows "\<exists>new. calls s' = calls s @ new
           \<and> sink s' = sink s @ failed_attempts srv (length (calls s)) new"
  using assms
proof (induction cs arbitrary: s)
  case Nil
  then show ?case by simp
next
  case (Cons c cs)
  obtain r1 s1 where it: "iteration srv tot c s = (r1, s1)" by (cases "iteration srv tot c s")
  from iteration_trace [OF it] obtain new1 where
    n1: "calls s1 = calls s @ new1" "sink s1 = sink s @ failed_attempts srv (length (calls s)) new1"
    by blast
  show ?case
  proof (cases r1)
    case (Some out)
    with Cons.prems it have "s' = s1" by simp
    with n1 show ?thesis by blast
  next
    case None
    with Cons.prems it have "loop srv tot cs s1 = (r, s')" by simp
    from Cons.IH [OF this] obtain new2 where
      n2: "calls s' = calls s1 @ new2" "sink s' = sink s1 @ failed_attempts srv (length (calls s1)) new2"
      by blast
    have "calls s' = calls s @ (new1 @ new2)" using n1 n2 by simp
    moreover have "sink s' = sink s @ failed_attempts srv (length (calls s)) (new1 @ new2)"
      using n1 n2 by (simp add: failed_attempts_append)
    ultimately show ?thesis by blast
  qed
qed

lemma loop_ended:
  assumes "loop srv tot cs s = (r, s')"
  shows "ended s' = (case r of None \<Rightarrow> ended s | Some out \<Rightarrow> Suc (ended s))"
  using assms
proof (induction cs arbitrary: s)
  case Nil
  then show ?case by simp
next
  case (Cons c cs)
  show ?case
  proof (cases rule: iteration_cases [of srv s c tot])
    case first_fails
    with Cons.prems have "loop srv tot cs (failed tot c (snd (submit srv c s))) = (r, s')" by simp
    from Cons.IH [OF this] show ?thesis by (simp split: option.splits)
  next
    case second_fails
    with Cons.prems have "loop srv tot cs (failed tot c (snd (submit srv c (snd (submit srv c s))))) = (r, s')" by simp
    from Cons.IH [OF this] show ?thesis by (simp split: option.splits)
  next
    case match
    with Cons.prems show ?thesis by auto
  next
    case no_match
    with Cons.prems have "loop srv tot cs (advance tot (snd (submit srv c (snd (submit srv c s))))) = (r, s')" by simp
    from Cons.IH [OF this] show ?thesis by (simp split: option.splits)
  qed
qed

lemma loop_processed:
  assumes "loop srv tot cs s = (None, s')"
  shows "processedCount s' = processedCount s + length cs"
  using assms
proof (induction cs arbitrary: s)
  case Nil
  then show ?case by simp
next
  case (Cons c cs)
  show ?case
  proof (cases rule: iteration_cases [of srv s c tot])
    case first_fails
    with Cons.prems have "loop srv tot cs (failed tot c (snd (submit srv c s))) = (None, s')" by simp
    from Cons.IH [OF this] show ?thesis by simp
  next
    case second_fails
    with Cons.prems have "loop srv tot cs (failed tot c (snd (submit srv c (snd (submit srv c s))))) = (None, s')" by simp
    from Cons.IH [OF this] show ?thesis by simp
  next
    case match
    with Cons.prems show ?thesis by auto
  next
    case no_match
    with Cons.prems have "loop srv tot cs (advance tot (snd (submit srv c (snd (submit srv c s))))) = (None, s')" by simp
    from Cons.IH [OF this] show ?thesis by simp
  qed
qed

lemma loop_no_match:
  assumes "\<forall>n. \<forall>c\<in>set cs. decide (response srv n c) (response srv (Suc n) c) \<noteq> Match"
  shows "fst (loop srv tot cs s) = None"
  using assms
proof (induction cs arbitrary: s)
  case Nil
  then show ?case by simp
next
  case (Cons c cs)
  then have ih: "\<And>s. fst (loop srv tot cs s) = None" by simp
  show ?case
  proof (cases rule: iteration_cases [of srv s c tot])
    case match
    with Cons.prems show ?thesis by auto
  qed (simp_all add: ih)
qed

lemma loop_sink_unchanged:
  assumes "\<forall>n. \<forall>c\<in>set cs. truthy (response srv n c)"
  shows "sink (snd (loop srv tot cs s)) = sink s"
  using assms
proof (induction cs arbitrary: s)
  case Nil
  then show ?case by simp
next
  case (Cons c cs)
  then have ih: "\<And>s. sink (snd (loop srv tot cs s)) = sink s" by simp
  show ?case
  proof (cases rule: iteration_cases [of srv s c tot])
    case first_fails
    with Cons.prems show ?thesis by auto
  next
    case second_fails
    with Cons.prems show ?thesis by auto
  qed (simp_all add: ih)
qed

lemma search_eq:
  "search srv tot cs s =
     (case loop srv tot cs (s\<lparr>processedCount := 0\<rparr>) of
        (Some out, s') \<Rightarrow> (out, s')
      | (None, s') \<Rightarrow>
          (Exhausted, s'\<lparr>console := console s' @ [SearchComplete], ended := Suc (ended s')\<rparr>))"
  by (simp add: search_def)

section \<open>Short circuit and early termination\<close>

lemmas run_defs = search_def iteration_def submit_def submitChecksum_def ok_def failed_def
  advance_def start_def key_match_def response_def js_def

text \<open>
  Claim C2: if the first lookup for a checksum fails (the value returned is falsy, as
  the failure indicator \<^verbatim>\<open>null\<close> is), the pass makes that one request only: the
  checksum is written to the failure log, the processed count goes up by one, and the
  loop goes on with the next checksum.
\<close>

theorem first_failure_skips_second_lookup:
  assumes "\<not> truthy (response srv (length (calls s)) checksum)"
  shows "\<exists>s'. iteration srv tot checksum s = (None, s')
            \<and> calls s' = calls s @ [checksum]
            \<and> sink s' = sink s @ [checksum]
            \<and> processedCount s' = Suc (processedCount s)
            \<and> loop srv tot (checksum # rest) s = loop srv tot rest s'"
  using iteration_first_fails [OF assms, of tot] by simp

theorem first_failure_skips_second_lookup_witness:
  "\<not> truthy (response unreachable (length (calls start)) (js ''AAA''))
   \<and> (\<exists>s'. iteration unreachable 2 (js ''AAA'') start = (None, s')
            \<and> calls s' = calls start @ [js ''AAA'']
            \<and> sink s' = sink start @ [js ''AAA'']
            \<and> processedCount s' = Suc (processedCount start)
            \<and> loop unreachable 2 [js ''AAA'', js ''BBB''] start = loop unreachable 2 [js ''BBB''] s')"
proof -
  have h: "\<not> truthy (response unreachable (length (calls start)) (js ''AAA''))"
    by (simp add: response_def unreachable_def submitChecksum_def)
  from first_failure_skips_second_lookup [OF h, of 2 "[js ''BBB'']"] h show ?thesis by simp
qed

text \<open>
  Claim C3: when the checksums before \<open>t\<close> have been processed without a match and the
  two lookups for \<open>t\<close> match, the run ends there, whatever checksums follow \<open>t\<close>: the
  last two requests are those for \<open>t\<close>, and the outcome is MatchFound with \<open>t\<close> and the
  value of the first lookup, which is also what the report prints.
\<close>

theorem match_ends_the_run:
  assumes "loop srv tot pre (s\<lparr>processedCount := 0\<rparr>) = (None, s1)"
    and "decide (response srv (length (calls s1)) t) (response srv (Suc (length (calls s1))) t) = Match"
  shows "\<exists>s2. search srv tot (pre @ t # post) s = (MatchFound t (response srv (length (calls s1)) t), s2)
            \<and> calls s2 = calls s1 @ [t, t]
            \<and> sink s2 = sink s1
            \<and> processedCount s2 = processedCount s1
            \<and> ended s2 = Suc (ended s1)
            \<and> last (console s2) = MatchFoundReport t (response srv (length (calls s1)) t)"
proof -
  from assms(2) have m: "truthy (response srv (length (calls s1)) t)"
    "truthy (response srv (Suc (length (calls s1))) t)"
    "key_match (response srv (length (calls s1)) t) (response srv (Suc (length (calls s1))) t)"
    by (simp_all add: decide_Match)
  note it = iteration_match [OF m, of tot]
  have "loop srv tot (pre @ t # post) (s\<lparr>processedCount := 0\<rparr>) = loop srv tot (t # post) s1"
    using assms(1) by (simp add: loop_append)
  then show ?thesis using it by (simp add: search_eq)
qed

theorem match_ends_the_run_witness:
  "loop stub 3 [js ''AAA''] (start\<lparr>processedCount := 0\<rparr>) =
     (None, \<lparr>calls = [js ''AAA'', js ''AAA''], sink = [], ended = 0, processedCount = 1,
             console = [Progress 1 3]\<rparr>)
   \<and> decide (response stub 2 (js ''BBB'')) (response stub 3 (js ''BBB'')) = Match
   \<and> (\<exists>s2. search stub 3 [js ''AAA'', js ''BBB'', js ''CCC''] start =
              (MatchFound (js ''BBB'') (JObj [(js ''key'', JStr (js ''X''))]), s2)
            \<and> calls s2 = [js ''AAA'', js ''AAA'', js ''BBB'', js ''BBB'']
            \<and> sink s2 = []
            \<and> processedCount s2 = 1
            \<and> ended s2 = 1)"
proof -
  let ?s1 = "\<lparr>calls = [js ''AAA'', js ''AAA''], sink = [], ended = 0, processedCount = 1,
             console = [Progress 1 3]\<rparr>"
  have h1: "loop stub 3 [js ''AAA''] (start\<lparr>processedCount := 0\<rparr>) = (None, ?s1)"
    by (simp add: run_defs stub_def)
  have r: "response stub 2 (js ''BBB'') = JObj [(js ''key'', JStr (js ''X''))]"
    by (simp add: run_defs stub_def)
  have h2: "decide (response stub (length (calls ?s1)) (js ''BBB''))
              (response stub (Suc (length (calls ?s1))) (js ''BBB'')) = Match"
    by (simp add: decide_def run_defs stub_def)
  have r': "response stub (length (calls ?s1)) (js ''BBB'') = JObj [(js ''key'', JStr (js ''X''))]"
    by (simp add: run_defs stub_def)
  from match_ends_the_run [OF h1 h2, of "[js ''CCC'']"] obtain s2 where
    "search stub 3 ([js ''AAA''] @ js ''BBB'' # [js ''CCC'']) start =
       (MatchFound (js ''BBB'') (response stub (length (calls ?s1)) (js ''BBB'')), s2)"
    "calls s2 = calls ?s1 @ [js ''BBB'', js ''BBB'']" "sink s2 = sink ?s1"
    "processedCount s2 = processedCount ?s1" "ended s2 = Suc (ended ?s1)"
    by blast
  with r' have "search stub 3 [js ''AAA'', js ''BBB'', js ''CCC''] start =
       (MatchFound (js ''BBB'') (JObj [(js ''key'', JStr (js ''X''))]), s2)
     \<and> calls s2 = [js ''AAA'', js ''AAA'', js ''BBB'', js ''BBB'']
     \<and> sink s2 = [] \<and> processedCount s2 = 1 \<and> ended s2 = 1"
    by simp
  then have "\<exists>s2. search stub 3 [js ''AAA'', js ''BBB'', js ''CCC''] start =
              (MatchFound (js ''BBB'') (JObj [(js ''key'', JStr (js ''X''))]), s2)
            \<and> calls s2 = [js ''AAA'', js ''AAA'', js ''BBB'', js ''BBB'']
            \<and> sink s2 = []
            \<and> processedCount s2 = 1
            \<and> ended s2 = 1" by (rule exI)
  moreover have "decide (response stub 2 (js ''BBB'')) (response stub 3 (js ''BBB'')) = Match"
    by (simp add: decide_def run_defs stub_def)
  ultimately show ?thesis using h1 by blast
qed

section \<open>Failure accounting and exhaustion\<close>

lemma submitChecksum_failure:
  "fst (submitChecksum Threw c) = JNull"
  "\<not> ok status \<Longrightarrow> fst (submitChecksum (Response status body) c) = JNull"
  "fst (submitChecksum (Response status None) c) = JNull"
  "ok status \<Longrightarrow> fst (submitChecksum (Response status (Some v)) c) = v"
  by (simp_all add: submitChecksum_def)

lemma loop_Some_MatchFound:
  assumes "loop srv tot cs s = (Some out, s')"
  shows "\<exists>t v. out = MatchFound t v"
  using assms
proof (induction cs arbitrary: s)
  case Nil
  then show ?case by simp
next
  case (Cons c cs)
  show ?case
  proof (cases rule: iteration_cases [of srv s c tot])
    case match
    with Cons.prems show ?thesis by auto
  qed (use Cons in auto)
qed

lemma search_sink:
  "sink (snd (search srv tot cs s)) = sink (snd (loop srv tot cs (s\<lparr>processedCount := 0\<rparr>)))"
  by (simp add: search_eq split: prod.splits option.splits)

lemma search_calls:
  "calls (snd (search srv tot cs s)) = calls (snd (loop srv tot cs (s\<lparr>processedCount := 0\<rparr>)))"
  by (simp add: search_eq split: prod.splits option.splits)

lemma search_processed:
  "processedCount (snd (search srv tot cs s)) =
     processedCount (snd (loop srv tot cs (s\<lparr>processedCount := 0\<rparr>)))"
  by (simp add: search_eq split: prod.splits option.splits)

lemma search_Exhausted:
  "fst (search srv tot cs s) = Exhausted \<longleftrightarrow> fst (loop srv tot cs (s\<lparr>processedCount := 0\<rparr>)) = None"
  using loop_Some_MatchFound [of srv tot cs "s\<lparr>processedCount := 0\<rparr>"]
  by (auto simp: search_eq split: prod.splits option.splits)

lemma loop_count_bounds:
  assumes "loop srv tot cs s = (r, s')"
  shows "length (sink s') + processedCount s \<le> length (sink s) + processedCount s'
         \<and> processedCount s' \<le> processedCount s + length cs"
  using assms
proof (induction cs arbitrary: s)
  case Nil
  then show ?case by simp
next
  case (Cons c cs)
  show ?case
  proof (cases rule: iteration_cases [of srv s c tot])
    case first_fails
    with Cons.prems have "loop srv tot cs (failed tot c (snd (submit srv c s))) = (r, s')" by simp
    from Cons.IH [OF this] show ?thesis by simp
  next
    case second_fails
    with Cons.prems have "loop srv tot cs (failed tot c (snd (submit srv c (snd (submit srv c s))))) = (r, s')" by simp
    from Cons.IH [OF this] show ?thesis by simp
  next
    case match
    with Cons.prems show ?thesis by auto
  next
    case no_match
    with Cons.prems have "loop srv tot cs (advance tot (snd (submit srv c (snd (submit srv c s))))) = (r, s')" by simp
    from Cons.IH [OF this] show ?thesis by simp
  qed
qed

text \<open>
  What a pass and a run do to the failure log, in terms of the test that lines 54 and 64
  make of a returned value: falsy is taken for a failed lookup, truthy for a success.
\<close>

lemma pass_accounting:
  "(\<not> truthy (response srv (length (calls s)) c) \<longrightarrow>
      calls (snd (iteration srv tot c s)) = calls s @ [c]
      \<and> sink (snd (iteration srv tot c s)) = sink s @ [c]
      \<and> processedCount (snd (iteration srv tot c s)) = Suc (processedCount s))
   \<and> (truthy (response srv (length (calls s)) c)
        \<and> \<not> truthy (response srv (Suc (length (calls s))) c) \<longrightarrow>
      calls (snd (iteration srv tot c s)) = calls s @ [c, c]
      \<and> sink (snd (iteration srv tot c s)) = sink s @ [c]
      \<and> processedCount (snd (iteration srv tot c s)) = Suc (processedCount s))
   \<and> (truthy (response srv (length (calls s)) c)
        \<and> truthy (response srv (Suc (length (calls s))) c) \<longrightarrow>
      sink (snd (iteration srv tot c s)) = sink s)
   \<and> ((\<forall>n. truthy (response srv n c)) \<and> c \<notin> set (sink s) \<longrightarrow>
      c \<notin> set (sink (snd (search srv tot cs s))))"
proof (intro conjI impI)
  assume a: "(\<forall>n. truthy (response srv n c)) \<and> c \<notin> set (sink s)"
  obtain r s' where l: "loop srv tot cs (s\<lparr>processedCount := 0\<rparr>) = (r, s')"
    by (cases "loop srv tot cs (s\<lparr>processedCount := 0\<rparr>)")
  from loop_trace [OF l] obtain new where
    "sink s' = sink s @ failed_attempts srv (length (calls s)) new" by auto
  with a set_failed_attempts [of c srv "length (calls s)" new] have "c \<notin> set (sink s')" by auto
  with l show "c \<notin> set (sink (snd (search srv tot cs s)))" by (simp add: search_sink)
next
  assume "truthy (response srv (length (calls s)) c) \<and> truthy (response srv (Suc (length (calls s))) c)"
  then show "sink (snd (iteration srv tot c s)) = sink s"
    by (cases rule: iteration_cases [of srv s c tot]) auto
qed (simp_all add: iteration_first_fails iteration_second_fails)

lemma search_without_match:
  "((\<forall>n. \<forall>c\<in>set cs. decide (response srv n c) (response srv (Suc n) c) \<noteq> Match) \<longrightarrow>
      fst (search srv (length cs) cs s) = Exhausted)
   \<and> (fst (search srv (length cs) cs s) = Exhausted \<longrightarrow>
        processedCount (snd (search srv (length cs) cs s)) = length cs)
   \<and> ((\<forall>n. \<forall>c\<in>set cs. truthy (response srv n c)) \<longrightarrow>
        sink (snd (search srv (length cs) cs s)) = sink s)"
proof (intro conjI impI)
  assume "\<forall>n. \<forall>c\<in>set cs. decide (response srv n c) (response srv (Suc n) c) \<noteq> Match"
  from loop_no_match [OF this] show "fst (search srv (length cs) cs s) = Exhausted"
    by (simp add: search_Exhausted)
next
  assume "fst (search srv (length cs) cs s) = Exhausted"
  then have "fst (loop srv (length cs) cs (s\<lparr>processedCount := 0\<rparr>)) = None"
    by (simp add: search_Exhausted)
  then obtain s' where l: "loop srv (length cs) cs (s\<lparr>processedCount := 0\<rparr>) = (None, s')"
    by (cases "loop srv (length cs) cs (s\<lparr>processedCount := 0\<rparr>)") auto
  from loop_processed [OF l] l show "processedCount (snd (search srv (length cs) cs s)) = length cs"
    by (simp add: search_processed)
next
  assume "\<forall>n. \<forall>c\<in>set cs. truthy (response srv n c)"
  from loop_sink_unchanged [OF this] show "sink (snd (search srv (length cs) cs s)) = sink s"
    by (simp add: search_sink)
qed



text \<open>
  Claim C9 does not hold as stated: no checksum has two lookups that both fail, and none
  gets two log lines from one pass. With a service whose every request fails, the first
  and the second request for \<^verbatim>\<open>AAA\<close> would both fail; the program sends the first one
  only and writes one line.
\<close>

theorem both_lookups_failing_counterexample:
  "\<not> truthy (response unreachable 0 (js ''AAA''))
   \<and> \<not> truthy (response unreachable 1 (js ''AAA''))
   \<and> calls (snd (search unreachable 1 [js ''AAA''] start)) = [js ''AAA'']
   \<and> sink (snd (search unreachable 1 [js ''AAA''] start)) = [js ''AAA'']
   \<and> processedCount (snd (search unreachable 1 [js ''AAA''] start)) = 1"
  by (simp add: run_defs unreachable_def)

text \<open>
  Claim C9, amended: the failure log is a per-attempt log, one line for each failed
  lookup attempt; a pass over a checksum sends one or two requests, at most one of
  which fails, so it writes at most one line, and when it writes one it counts the
  checksum as processed once. Over the whole run the log holds the checksums of the
  failed attempts in order, with no more lines than processed checksums.
\<close>

theorem one_log_line_per_pass:
  "(iteration srv tot c s = (r, s') \<longrightarrow>
      (\<exists>new. (new = [c] \<or> new = [c, c]) \<and> calls s' = calls s @ new
          \<and> sink s' = sink s @ failed_attempts srv (length (calls s)) new
          \<and> length (failed_attempts srv (length (calls s)) new) \<le> 1
          \<and> (failed_attempts srv (length (calls s)) new \<noteq> [] \<longrightarrow>
               r = None \<and> processedCount s' = Suc (processedCount s))))
   \<and> (search srv tot cs s = (out, s'') \<longrightarrow>
      (\<exists>new. calls s'' = calls s @ new
          \<and> sink s'' = sink s @ failed_attempts srv (length (calls s)) new)
      \<and> length (sink s'') \<le> length (sink s) + processedCount s''
      \<and> processedCount s'' \<le> length cs)"
proof (intro conjI impI)
  assume "iteration srv tot c s = (r, s')"
  from iteration_trace [OF this] show "\<exists>new. (new = [c] \<or> new = [c, c]) \<and> calls s' = calls s @ new
          \<and> sink s' = sink s @ failed_attempts srv (length (calls s)) new
          \<and> length (failed_attempts srv (length (calls s)) new) \<le> 1
          \<and> (failed_attempts srv (length (calls s)) new \<noteq> [] \<longrightarrow>
               r = None \<and> processedCount s' = Suc (processedCount s))" .
next
  assume a: "search srv tot cs s = (out, s'')"
  obtain r1 s1 where l: "loop srv tot cs (s\<lparr>processedCount := 0\<rparr>) = (r1, s1)"
    by (cases "loop srv tot cs (s\<lparr>processedCount := 0\<rparr>)")
  from a l have eq: "calls s'' = calls s1" "sink s'' = sink s1" "processedCount s'' = processedCount s1"
    using search_calls [of srv tot cs s] search_sink [of srv tot cs s] search_processed [of srv tot cs s]
    by simp_all
  from loop_trace [OF l] eq show "\<exists>new. calls s'' = calls s @ new
          \<and> sink s'' = sink s @ failed_attempts srv (length (calls s)) new" by simp
  from loop_count_bounds [OF l] eq show "length (sink s'') \<le> length (sink s) + processedCount s''"
    by simp
  from loop_count_bounds [OF l] eq show "processedCount s'' \<le> length cs" by simp
qed

theorem one_log_line_per_pass_witness:
  "iteration unreachable 1 (js ''AAA'') start =
     (None, \<lparr>calls = [js ''AAA''], sink = [js ''AAA''], ended = 0, processedCount = 1,
             console = [NetworkError (js ''AAA''), Progress 1 1]\<rparr>)
   \<and> search unreachable 1 [js ''AAA''] start =
     (Exhausted, \<lparr>calls = [js ''AAA''], sink = [js ''AAA''], ended = 1, processedCount = 1,
             console = [NetworkError (js ''AAA''), Progress 1 1, SearchComplete]\<rparr>)
   \<and> length (sink \<lparr>calls = [js ''AAA''], sink = [js ''AAA''], ended = 1, processedCount = 1,
             console = [NetworkError (js ''AAA''), Progress 1 1, SearchComplete]\<rparr>)
       \<le> length (sink start) + processedCount \<lparr>calls = [js ''AAA''], sink = [js ''AAA''], ended = 1, processedCount = 1,
             console = [NetworkError (js ''AAA''), Progress 1 1, SearchComplete]\<rparr>"
proof -
  have h1: "iteration unreachable 1 (js ''AAA'') start =
     (None, \<lparr>calls = [js ''AAA''], sink = [js ''AAA''], ended = 0, processedCount = 1,
             console = [NetworkError (js ''AAA''), Progress 1 1]\<rparr>)"
    by (simp add: run_defs unreachable_def)
  have h2: "search unreachable 1 [js ''AAA''] start =
     (Exhausted, \<lparr>calls = [js ''AAA''], sink = [js ''AAA''], ended = 1, processedCount = 1,
             console = [NetworkError (js ''AAA''), Progress 1 1, SearchComplete]\<rparr>)"
    by (simp add: run_defs unreachable_def)
  from one_log_line_per_pass [of unreachable 1 "js ''AAA''" start None _ "[js ''AAA'']" Exhausted] h1 h2
  show ?thesis by blast
qed

section \<open>The run as a whole\<close>

lemma search_ended: "ended (snd (search srv tot cs s)) = Suc (ended s)"
proof -
  obtain r s' where l: "loop srv tot cs (s\<lparr>processedCount := 0\<rparr>) = (r, s')"
    by (cases "loop srv tot cs (s\<lparr>processedCount := 0\<rparr>)")
  from loop_ended [OF l] l show ?thesis
    by (cases r) (simp_all add: search_eq)
qed

lemma createWriteStream_opened:
  assumes "appendable d q"
  shows "\<exists>fs'. createWriteStream q d = Opened fs'
           \<and> (\<forall>p. fs' p = (if p = q \<and> files d p = None then Some (Inr []) else files d p))"
  using assms by (auto simp: createWriteStream_def split: option.splits)

lemma createWriteStream_failed: "createWriteStream q d = OpenFailed \<longleftrightarrow> \<not> appendable d q"
  by (simp add: createWriteStream_def)

lemma parse_exists:
  "parseChecksumFile fs p = Inr cs \<Longrightarrow> fs p \<noteq> None"
  by (auto simp: parseChecksumFile_def split: option.splits sum.splits)

lemma parse_missing:
  "fs p = None \<Longrightarrow> parseChecksumFile fs p = Inl (FileNotFound p)"
  by (simp add: parseChecksumFile_def)

lemma main_missing:
  assumes "files d reportPath = None"
  shows "main failedPathOf srv reportPath d =
           (Rejected (FileNotFound reportPath),
            start\<lparr>console := [ReadingFrom reportPath, FailedLoggedTo (failedPathOf reportPath)]\<rparr>,
            createWriteStream (failedPathOf reportPath) d)"
  using assms by (simp add: main_def parse_missing Let_def)

lemma main_killed:
  assumes "files d reportPath \<noteq> None" and "\<not> appendable d (failedPathOf reportPath)"
  shows "main failedPathOf srv reportPath d =
           (Killed,
            start\<lparr>console := [ReadingFrom reportPath, FailedLoggedTo (failedPathOf reportPath)]\<rparr>,
            OpenFailed)"
  using assms by (simp add: main_def createWriteStream_failed Let_def)

lemma main_empty:
  assumes "parseChecksumFile (files d) reportPath = Inr []"
    and "appendable d (failedPathOf reportPath)"
  shows "main failedPathOf srv reportPath d =
           (NoChecksums,
            start\<lparr>console := [ReadingFrom reportPath, FailedLoggedTo (failedPathOf reportPath),
                               NoChecksumsFound]\<rparr>,
            createWriteStream (failedPathOf reportPath) d)"
  using assms by (simp add: main_def createWriteStream_failed Let_def)

lemma main_rejected:
  assumes "parseChecksumFile (files d) reportPath = Inl err"
    and "appendable d (failedPathOf reportPath)"
  shows "main failedPathOf srv reportPath d =
           (Rejected err,
            start\<lparr>console := [ReadingFrom reportPath, FailedLoggedTo (failedPathOf reportPath)]\<rparr>,
            createWriteStream (failedPathOf reportPath) d)"
  using assms by (simp add: main_def createWriteStream_failed Let_def)

lemma main_search:
  assumes "parseChecksumFile (files d) reportPath = Inr cs" "cs \<noteq> []"
    and "appendable d (failedPathOf reportPath)"
  shows "main failedPathOf srv reportPath d =
           (Exit (fst (search srv (length cs) cs
                    (start\<lparr>console := [ReadingFrom reportPath, FailedLoggedTo (failedPathOf reportPath),
                               FoundChecksums (length cs), StartingSearch]\<rparr>))),
            snd (search srv (length cs) cs
                    (start\<lparr>console := [ReadingFrom reportPath, FailedLoggedTo (failedPathOf reportPath),
                               FoundChecksums (length cs), StartingSearch]\<rparr>)),
            createWriteStream (failedPathOf reportPath) d)"
  using assms by (simp add: main_def createWriteStream_failed Let_def split: prod.splits)

lemmas parse_defs = parseChecksumFile_def report_only_def on_line_def comma_def trim_def
  is_white_def js_def

text \<open>
  Claim C7 does not hold as stated: the failure log is opened before the input file is
  looked for. In a writable directory without any file the run is rejected, and
  \<^verbatim>\<open>failed.txt\<close> has been created.
\<close>

theorem missing_file_creates_log_counterexample:
  "files (writable no_files) (js ''failed.txt'') = None
   \<and> fst (program in_cwd unreachable (js ''./checksum_report.txt'') (writable no_files)) =
       Rejected (FileNotFound (js ''./checksum_report.txt''))
   \<and> snd (snd (program in_cwd unreachable (js ''./checksum_report.txt'') (writable no_files))) =
       Opened (no_files(js ''failed.txt'' \<mapsto> Inr []))"
  by (simp add: program_def main_def parseChecksumFile_def no_files_def in_cwd_def
      writable_def createWriteStream_def Let_def)

text \<open>
  Claim C7, amended: when the input path holds no file, the run is rejected with the
  error \<^verbatim>\<open>File not found\<close>, which is printed for the operator; no lookup has been
  issued, nothing has been written to the failure log and the stream has not been
  ended. By then the failure log has been requested to open for appending. Where that
  open can be done, it is the only change to the files: the log is created empty if it
  was missing and left as it was otherwise. Where it cannot, no file is created or
  changed, and the unhandled error of the stream ends the process.
\<close>

theorem missing_input_file:
  assumes "files d reportPath = None"
  shows "\<exists>s a. program failedPathOf srv reportPath d = (Rejected (FileNotFound reportPath), s, a)
           \<and> calls s = [] \<and> sink s = [] \<and> ended s = 0
           \<and> console s = [ReadingFrom reportPath, FailedLoggedTo (failedPathOf reportPath),
                           MainError (FileNotFound reportPath)]
           \<and> (appendable d (failedPathOf reportPath) \<longrightarrow>
                (\<exists>fs'. a = Opened fs'
                   \<and> (\<forall>p. fs' p = (if p = failedPathOf reportPath \<and> files d p = None
                                     then Some (Inr []) else files d p))))
           \<and> (\<not> appendable d (failedPathOf reportPath) \<longrightarrow> a = OpenFailed)"
  using main_missing [of d reportPath failedPathOf srv] assms
    createWriteStream_opened [of d "failedPathOf reportPath"]
    createWriteStream_failed [of "failedPathOf reportPath" d]
  by (simp add: program_def start_def)

theorem missing_input_file_witness:
  "files (writable no_files) (js ''./checksum_report.txt'') = None
   \<and> appendable (writable no_files) (in_cwd (js ''./checksum_report.txt''))
   \<and> (\<exists>s fs'. program in_cwd stub (js ''./checksum_report.txt'') (writable no_files) =
                  (Rejected (FileNotFound (js ''./checksum_report.txt'')), s, Opened fs')
           \<and> calls s = [] \<and> sink s = [] \<and> ended s = 0
           \<and> fs' (in_cwd (js ''./checksum_report.txt'')) = Some (Inr []))
   \<and> files (read_only no_files) (js ''./checksum_report.txt'') = None
   \<and> \<not> appendable (read_only no_files) (in_cwd (js ''./checksum_report.txt''))
   \<and> (\<exists>s. program in_cwd stub (js ''./checksum_report.txt'') (read_only no_files) =
                  (Rejected (FileNotFound (js ''./checksum_report.txt'')), s, OpenFailed)
           \<and> calls s = [] \<and> sink s = [] \<and> ended s = 0)"
proof -
  have w: "files (writable no_files) (js ''./checksum_report.txt'') = None"
    "appendable (writable no_files) (in_cwd (js ''./checksum_report.txt''))"
    "files (writable no_files) (in_cwd (js ''./checksum_report.txt'')) = None"
    by (simp_all add: writable_def no_files_def)
  have r: "files (read_only no_files) (js ''./checksum_report.txt'') = None"
    "\<not> appendable (read_only no_files) (in_cwd (js ''./checksum_report.txt''))"
    by (simp_all add: read_only_def no_files_def)
  from missing_input_file [of "writable no_files" "js ''./checksum_report.txt''" in_cwd stub] w
  have 1: "\<exists>s fs'. program in_cwd stub (js ''./checksum_report.txt'') (writable no_files) =
                  (Rejected (FileNotFound (js ''./checksum_report.txt'')), s, Opened fs')
           \<and> calls s = [] \<and> sink s = [] \<and> ended s = 0
           \<and> fs' (in_cwd (js ''./checksum_report.txt'')) = Some (Inr [])"
    by auto
  from missing_input_file [of "read_only no_files" "js ''./checksum_report.txt''" in_cwd stub] r
  have 2: "\<exists>s. program in_cwd stub (js ''./checksum_report.txt'') (read_only no_files) =
                  (Rejected (FileNotFound (js ''./checksum_report.txt'')), s, OpenFailed)
           \<and> calls s = [] \<and> sink s = [] \<and> ended s = 0"
    by auto
  from w r 1 2 show ?thesis by blast
qed

text \<open>
  Claim C8 does not hold as stated: on a fatal error the stream is not ended. For a
  missing input file \<^verbatim>\<open>failedStream.end()\<close> is never called.
\<close>

theorem fatal_error_leaves_stream_open_counterexample:
  "fst (program in_cwd unreachable (js ''./checksum_report.txt'') (writable no_files)) =
       Rejected (FileNotFound (js ''./checksum_report.txt''))
   \<and> ended (fst (snd (program in_cwd unreachable (js ''./checksum_report.txt'')
                         (writable no_files)))) = 0"
  by (simp add: program_def main_def parseChecksumFile_def no_files_def writable_def start_def
      Let_def)

text \<open>
  Claim C8, amended: a run that exits from the verification loop, with a match or by
  exhaustion, has ended the failure stream exactly once; a run rejected by the checksum
  source and a run that returns because no checksums were found have not ended it, and
  neither has a run killed by the stream's own error. The run exits from the loop
  exactly when the failure log can be opened and the file yields at least one checksum.
\<close>

theorem stream_ended_once_on_exit:
  assumes "program failedPathOf srv reportPath d = (e, s, a)"
  shows "ended s = (case e of Exit out \<Rightarrow> 1 | NoChecksums \<Rightarrow> 0 | Rejected err \<Rightarrow> 0 | Killed \<Rightarrow> 0)
         \<and> ((\<exists>out. e = Exit out) \<longleftrightarrow>
              (appendable d (failedPathOf reportPath)
               \<and> (\<exists>cs. parseChecksumFile (files d) reportPath = Inr cs \<and> cs \<noteq> [])))"
proof (cases "appendable d (failedPathOf reportPath)")
  case False
  show ?thesis
  proof (cases "files d reportPath = None")
    case True
    from main_missing [OF this, of failedPathOf srv] assms False show ?thesis
      by (auto simp: program_def start_def)
  next
    case exists: False
    from main_killed [of d reportPath failedPathOf srv] exists assms False show ?thesis
      by (auto simp: program_def start_def)
  qed
next
  case ap: True
  show ?thesis
  proof (cases "parseChecksumFile (files d) reportPath")
    case (Inl err)
    from main_rejected [of d reportPath err failedPathOf srv] ap assms Inl show ?thesis
      by (auto simp: program_def start_def)
  next
    case (Inr cs)
    show ?thesis
    proof (cases "cs = []")
      case True
      with Inr main_empty [of d reportPath failedPathOf srv] ap assms show ?thesis
        by (auto simp: program_def start_def)
    next
      case False
      from main_search [of d reportPath cs failedPathOf srv] assms Inr False ap show ?thesis
        by (auto simp: program_def search_ended start_def)
    qed
  qed
qed

theorem stream_ended_once_on_exit_witness:
  "program in_cwd stub (js ''./checksum_report.txt'')
       (writable (report_only [js ''a.txt,AAA'', js ''b.txt,BBB'', js ''c.txt,CCC''])) =
     (Exit (MatchFound (js ''BBB'') (JObj [(js ''key'', JStr (js ''X''))])),
      \<lparr>calls = [js ''AAA'', js ''AAA'', js ''BBB'', js ''BBB''], sink = [], ended = 1,
        processedCount = 1,
        console = [ReadingFrom (js ''./checksum_report.txt''), FailedLoggedTo (js ''failed.txt''),
                   FoundChecksums 3, StartingSearch, Progress 1 3,
                   MatchFoundReport (js ''BBB'') (JObj [(js ''key'', JStr (js ''X''))])]\<rparr>,
      createWriteStream (js ''failed.txt'')
        (writable (report_only [js ''a.txt,AAA'', js ''b.txt,BBB'', js ''c.txt,CCC''])))
   \<and> ended \<lparr>calls = [js ''AAA'', js ''AAA'', js ''BBB'', js ''BBB''], sink = [], ended = 1,
        processedCount = 1,
        console = [ReadingFrom (js ''./checksum_report.txt''), FailedLoggedTo (js ''failed.txt''),
                   FoundChecksums 3, StartingSearch, Progress 1 3,
                   MatchFoundReport (js ''BBB'') (JObj [(js ''key'', JStr (js ''X''))])]\<rparr>
       = (case Exit (MatchFound (js ''BBB'') (JObj [(js ''key'', JStr (js ''X''))])) of
            Exit out \<Rightarrow> 1 | NoChecksums \<Rightarrow> 0 | Rejected err \<Rightarrow> 0 | Killed \<Rightarrow> 0)"
proof -
  let ?d = "writable (report_only [js ''a.txt,AAA'', js ''b.txt,BBB'', js ''c.txt,CCC''])"
  have p: "parseChecksumFile (files ?d) (js ''./checksum_report.txt'') =
      Inr [js ''AAA'', js ''BBB'', js ''CCC'']"
    by (simp add: parse_defs writable_def)
  have ap: "appendable ?d (in_cwd (js ''./checksum_report.txt''))"
    by (simp add: writable_def)
  have s: "search stub 3 [js ''AAA'', js ''BBB'', js ''CCC'']
       (start\<lparr>console := [ReadingFrom (js ''./checksum_report.txt''), FailedLoggedTo (js ''failed.txt''),
                   FoundChecksums 3, StartingSearch]\<rparr>) =
     (MatchFound (js ''BBB'') (JObj [(js ''key'', JStr (js ''X''))]),
      \<lparr>calls = [js ''AAA'', js ''AAA'', js ''BBB'', js ''BBB''], sink = [], ended = 1,
        processedCount = 1,
        console = [ReadingFrom (js ''./checksum_report.txt''), FailedLoggedTo (js ''failed.txt''),
                   FoundChecksums 3, StartingSearch, Progress 1 3,
                   MatchFoundReport (js ''BBB'') (JObj [(js ''key'', JStr (js ''X''))])]\<rparr>)"
    by (simp add: run_defs stub_def)
  have h: "program in_cwd stub (js ''./checksum_report.txt'') ?d =
     (Exit (MatchFound (js ''BBB'') (JObj [(js ''key'', JStr (js ''X''))])),
      \<lparr>calls = [js ''AAA'', js ''AAA'', js ''BBB'', js ''BBB''], sink = [], ended = 1,
        processedCount = 1,
        console = [ReadingFrom (js ''./checksum_report.txt''), FailedLoggedTo (js ''failed.txt''),
                   FoundChecksums 3, StartingSearch, Progress 1 3,
                   MatchFoundReport (js ''BBB'') (JObj [(js ''key'', JStr (js ''X''))])]\<rparr>,
      createWriteStream (js ''failed.txt'') ?d)"
  proof -
    have len: "length [js ''AAA'', js ''BBB'', js ''CCC''] = 3" by simp
    have icd: "in_cwd (js ''./checksum_report.txt'') = js ''failed.txt''" by (simp add: in_cwd_def)
    have ne: "[js ''AAA'', js ''BBB'', js ''CCC''] \<noteq> []" by simp
    note m = main_search [of ?d "js ''./checksum_report.txt''" "[js ''AAA'', js ''BBB'', js ''CCC'']"
        in_cwd stub, OF p ne ap, unfolded len icd s fst_conv snd_conv]
    then show ?thesis by (simp add: program_def)
  qed
  from stream_ended_once_on_exit [OF h] h show ?thesis by blast
qed

text \<open>
  Claim C10: when the file yields no checksum, no lookup is issued, nothing is written
  to the failure log, the exhaustion report is not printed and the failure stream is not
  ended; and the run, which gets to the empty sequence when the failure log can be
  opened, then reports that no checksums were found and returns.
\<close>

theorem no_checksums_returns_before_loop:
  assumes "parseChecksumFile (files d) reportPath = Inr []"
  shows "(appendable d (failedPathOf reportPath) \<longrightarrow>
           (\<exists>s fs'. program failedPathOf srv reportPath d = (NoChecksums, s, Opened fs')
              \<and> calls s = [] \<and> sink s = [] \<and> ended s = 0
              \<and> console s = [ReadingFrom reportPath, FailedLoggedTo (failedPathOf reportPath),
                              NoChecksumsFound]
              \<and> SearchComplete \<notin> set (console s)))
         \<and> (\<exists>e s a. program failedPathOf srv reportPath d = (e, s, a)
              \<and> calls s = [] \<and> sink s = [] \<and> ended s = 0
              \<and> SearchComplete \<notin> set (console s))"
proof (cases "appendable d (failedPathOf reportPath)")
  case True
  from createWriteStream_opened [OF True] obtain fs' where
    "createWriteStream (failedPathOf reportPath) d = Opened fs'" by blast
  with main_empty [of d reportPath failedPathOf srv] assms True show ?thesis
    by (simp add: program_def start_def)
next
  case False
  from parse_exists [OF assms] have "files d reportPath \<noteq> None" .
  with main_killed [of d reportPath failedPathOf srv] False show ?thesis
    by (simp add: program_def start_def)
qed

theorem no_checksums_returns_before_loop_witness:
  "parseChecksumFile
      (files (writable (report_only [js ''no comma'', [], js ''a,b,c'', js ''a.txt,''])))
      (js ''./checksum_report.txt'') = Inr []
   \<and> appendable (writable (report_only [js ''no comma'', [], js ''a,b,c'', js ''a.txt,'']))
        (in_cwd (js ''./checksum_report.txt''))
   \<and> (\<exists>s fs'. program in_cwd stub (js ''./checksum_report.txt'')
                  (writable (report_only [js ''no comma'', [], js ''a,b,c'', js ''a.txt,''])) =
                  (NoChecksums, s, Opened fs')
           \<and> calls s = [] \<and> sink s = [] \<and> ended s = 0
           \<and> console s = [ReadingFrom (js ''./checksum_report.txt''),
                           FailedLoggedTo (in_cwd (js ''./checksum_report.txt'')), NoChecksumsFound]
           \<and> SearchComplete \<notin> set (console s))"
proof -
  let ?d = "writable (report_only [js ''no comma'', [], js ''a,b,c'', js ''a.txt,''])"
  have h: "parseChecksumFile (files ?d) (js ''./checksum_report.txt'') = Inr []"
    by (simp add: parse_defs writable_def)
  have ap: "appendable ?d (in_cwd (js ''./checksum_report.txt''))"
    by (simp add: writable_def)
  from no_checksums_returns_before_loop [OF h, of in_cwd stub] h ap
  show ?thesis by blast
qed

end
